theory Spec2Isabelle
  imports
    Complex_Main
    "HOL-Library.Char_ord"
    "HOL-Library.List_Lexorder"
    "HOL-Library.Option_ord"
    "HOL-Library.Product_Lexorder"
begin

section \<open>JavaScript values used by the server\<close>

text \<open>
  The expense tracker is a Node.js program. The model keeps the exceptions JavaScript
  raises and the arithmetic of its numbers, which are IEEE-754 double precision values.
\<close>

datatype js_error = TypeError

text \<open>\<open>arr[i]\<close>: an index outside the array evaluates to \<open>undefined\<close> (here \<open>None\<close>).\<close>

definition js_index :: "'a list \<Rightarrow> nat \<Rightarrow> 'a option" where
  "js_index arr i = (if i < length arr then Some (arr ! i) else None)"

text \<open>\<open>obj.field\<close>: reading a property of \<open>undefined\<close> throws a \<open>TypeError\<close>.\<close>

definition js_get :: "'a option \<Rightarrow> ('a \<Rightarrow> 'b) \<Rightarrow> js_error + 'b" where
  "js_get obj field = (case obj of None \<Rightarrow> Inl TypeError | Some r \<Rightarrow> Inr (field r))"


section \<open>Double precision numbers\<close>

text \<open>
  A JavaScript number is a finite double, one of the two infinities, or \<open>NaN\<close>. A finite
  double is a real number of the form \<open>m * 2^k\<close> with \<open>|m| < 2^53\<close> and
  \<open>-1074 \<le> k \<le> 971\<close>. The two zeros are not told apart: the program never divides by a
  negative zero (its divisors are the literal \<open>100\<close>, a sum that starts from the literal
  \<open>0\<close>, and an array length), and no other operation it uses sees the sign of a zero.
\<close>

datatype jsnum = Fin real | PosInf | NegInf | NaN

text \<open>The position of the leading binary digit of a positive integer.\<close>

fun ilog2 :: "nat \<Rightarrow> nat" where
  "ilog2 n = (if n < 2 then 0 else Suc (ilog2 (n div 2)))"

declare ilog2.simps [simp del]

text \<open>The binary exponent of \<open>a > 0\<close>: the \<open>e\<close> with \<open>2^e \<le> a < 2^(e+1)\<close>.\<close>

definition expo :: "real \<Rightarrow> int" where
  "expo a = (if 1 \<le> a then int (ilog2 (nat \<lfloor>a\<rfloor>))
             else - int (Suc (ilog2 (nat \<lceil>1 / a\<rceil> - 1))))"

text \<open>The nearest integer, a tie going to the even one.\<close>

definition rne :: "real \<Rightarrow> int" where
  "rne y = (let f = \<lfloor>y\<rfloor>; r = y - of_int f
            in if r < 1 / 2 then f
               else if 1 / 2 < r then f + 1
               else if even f then f else f + 1)"

text \<open>
  The exponent of the unit in the last place around \<open>x\<close>: 52 binary digits below the
  leading one, and never below the subnormal exponent \<open>-1074\<close>.
\<close>

definition ulp_exp :: "real \<Rightarrow> int" where
  "ulp_exp x = max (expo \<bar>x\<bar> - 52) (- 1074)"

text \<open>Rounding to the nearest multiple of the unit in the last place, ties to even.\<close>

definition nearest :: "real \<Rightarrow> real" where
  "nearest x = of_int (rne (x / 2 powi ulp_exp x)) * 2 powi ulp_exp x"

text \<open>
  The double that an operation returns for the exact result \<open>x\<close>: the nearest double, or
  an infinity when that rounding reaches \<open>2^1024\<close>.
\<close>

definition fl :: "real \<Rightarrow> jsnum" where
  "fl x = (if x = 0 then Fin 0
           else if 2 ^ 1024 \<le> \<bar>nearest x\<bar> then (if 0 < x then PosInf else NegInf)
           else Fin (nearest x))"

text \<open>\<open>-a\<close>.\<close>

fun js_neg :: "jsnum \<Rightarrow> jsnum" where
  "js_neg (Fin x) = Fin (- x)"
| "js_neg PosInf = NegInf"
| "js_neg NegInf = PosInf"
| "js_neg NaN = NaN"

text \<open>\<open>a + b\<close>.\<close>

fun js_add :: "jsnum \<Rightarrow> jsnum \<Rightarrow> jsnum" where
  "js_add (Fin x) (Fin y) = fl (x + y)"
| "js_add (Fin x) PosInf = PosInf"
| "js_add (Fin x) NegInf = NegInf"
| "js_add PosInf (Fin y) = PosInf"
| "js_add PosInf PosInf = PosInf"
| "js_add NegInf (Fin y) = NegInf"
| "js_add NegInf NegInf = NegInf"
| "js_add PosInf NegInf = NaN"
| "js_add NegInf PosInf = NaN"
| "js_add NaN b = NaN"
| "js_add a NaN = NaN"

text \<open>\<open>a - b\<close>.\<close>

definition js_sub :: "jsnum \<Rightarrow> jsnum \<Rightarrow> jsnum" where
  "js_sub a b = js_add a (js_neg b)"

text \<open>The sign of a number that is not \<open>NaN\<close>.\<close>

fun js_sign :: "jsnum \<Rightarrow> int" where
  "js_sign (Fin x) = (if 0 < x then 1 else if x < 0 then - 1 else 0)"
| "js_sign PosInf = 1"
| "js_sign NegInf = - 1"
| "js_sign NaN = 0"

text \<open>The infinity of the given sign; zero times infinity is \<open>NaN\<close>.\<close>

definition js_inf :: "int \<Rightarrow> jsnum" where
  "js_inf s = (if 0 < s then PosInf else if s < 0 then NegInf else NaN)"

text \<open>\<open>a * b\<close>.\<close>

fun js_mul :: "jsnum \<Rightarrow> jsnum \<Rightarrow> jsnum" where
  "js_mul (Fin x) (Fin y) = fl (x * y)"
| "js_mul NaN b = NaN"
| "js_mul a NaN = NaN"
| "js_mul a b = js_inf (js_sign a * js_sign b)"

text \<open>
  \<open>a / b\<close>. A finite number divided by zero gives an infinity of its sign, and zero
  divided by zero gives \<open>NaN\<close>.
\<close>

fun js_div :: "jsnum \<Rightarrow> jsnum \<Rightarrow> jsnum" where
  "js_div (Fin x) (Fin y) =
     (if y \<noteq> 0 then fl (x / y)
      else if 0 < x then PosInf
      else if x < 0 then NegInf
      else NaN)"
| "js_div NaN b = NaN"
| "js_div a NaN = NaN"
| "js_div (Fin x) b = Fin 0"
| "js_div a (Fin y) = js_inf (js_sign a * (if y < 0 then - 1 else 1))"
| "js_div a b = NaN"

text \<open>\<open>a > b\<close>; every comparison with \<open>NaN\<close> is false.\<close>

fun js_gt :: "jsnum \<Rightarrow> jsnum \<Rightarrow> bool" where
  "js_gt (Fin x) (Fin y) = (y < x)"
| "js_gt NaN b = False"
| "js_gt a NaN = False"
| "js_gt PosInf PosInf = False"
| "js_gt PosInf b = True"
| "js_gt a PosInf = False"
| "js_gt NegInf b = False"
| "js_gt a NegInf = True"

text \<open>\<open>Math.max(a, b)\<close>: \<open>NaN\<close> when an argument is \<open>NaN\<close>.\<close>

fun Math_max :: "jsnum \<Rightarrow> jsnum \<Rightarrow> jsnum" where
  "Math_max NaN b = NaN"
| "Math_max a NaN = NaN"
| "Math_max a b = (if js_gt a b then a else b)"

text \<open>
  \<open>Math.round\<close>: the nearest integer, a tie going to the larger one. The result is
  exact: it is a double whenever the argument is.
\<close>

fun Math_round :: "jsnum \<Rightarrow> jsnum" where
  "Math_round (Fin x) = Fin (of_int \<lfloor>x + 1 / 2\<rfloor>)"
| "Math_round a = a"

text \<open>The decimal digits of a non-negative integer, as \<open>String(n)\<close> prints them.\<close>

fun show_nat :: "nat \<Rightarrow> string" where
  "show_nat n =
     (if n < 10 then [''0123456789'' ! n]
      else show_nat (n div 10) @ [''0123456789'' ! (n mod 10)])"

declare show_nat.simps [simp del]

text \<open>
  \<open>x.toFixed(1)\<close>, which works on the exact value of the double. A value that is not
  finite prints by name. A finite value below \<open>10^21\<close> in magnitude prints its sign, then
  the integer \<open>n\<close> nearest to ten times the magnitude (the larger one on a tie) with a
  point before its last digit. From \<open>10^21\<close> on JavaScript falls back to
  \<open>Number::toString\<close>, the shortest digits that read back as the same double: that
  function is the parameter \<open>toStr\<close>.
\<close>

fun toFixed1 :: "(real \<Rightarrow> string) \<Rightarrow> jsnum \<Rightarrow> string" where
  "toFixed1 toStr PosInf = ''Infinity''"
| "toFixed1 toStr NegInf = ''-Infinity''"
| "toFixed1 toStr NaN = ''NaN''"
| "toFixed1 toStr (Fin x) =
     (let s = (if x < 0 then ''-'' else '''');
          a = \<bar>x\<bar>
      in if 10 ^ 21 \<le> a then s @ toStr a
         else let n = nat \<lfloor>a * 10 + 1 / 2\<rfloor>
              in s @ show_nat (n div 10) @ ''.'' @ show_nat (n mod 10))"

text \<open>\<open>s.padStart(2, '0')\<close>.\<close>

definition padStart2 :: "string \<Rightarrow> string" where
  "padStart2 s = replicate (2 - length s) (CHR ''0'') @ s"


section \<open>Data\<close>

text \<open>
  The program runs on SQLite unless configured otherwise, and the model follows that
  backend: dates and categories are texts compared byte by byte, amounts and their sums
  are double precision numbers.
\<close>

text \<open>A row of the \<open>expenses\<close> table, as \<open>SELECT *\<close> returns it.\<close>

record expense =
  id :: nat
  date :: string
  category :: string
  amount :: jsnum
  description :: "string option"
  created_at :: string

text \<open>A row of \<open>SELECT category, SUM(amount) as total ... GROUP BY category\<close>.\<close>

record category_total =
  category :: string
  total :: jsnum

text \<open>
  A row of \<open>SELECT strftime('%Y-%m', date) as month, SUM(amount) as total\<close>; the month is
  \<open>NULL\<close> (here \<open>None\<close>) when the engine cannot read the date.
\<close>

record monthly_total =
  month :: "string option"
  total :: jsnum

text \<open>An entry of \<open>insights.anomalies\<close>.\<close>

record anomaly =
  date :: string
  amount :: jsnum
  description :: "string option"

record predictions =
  nextMonth :: jsnum

record insights =
  predictions :: predictions
  recommendations :: "string list"
  anomalies :: "anomaly list"


section \<open>The insight engine (backend/server.js)\<close>

text \<open>
  \<open>predictNextMonth\<close>, lines 14 to 21: fewer than two periods give 0; otherwise the
  difference of the two most recent totals is added to the most recent one, and
  \<open>Math.max\<close> replaces a negative result by 0.
\<close>

definition predictNextMonth :: "monthly_total list \<Rightarrow> js_error + jsnum" where
  "predictNextMonth monthlyTotals =
     (if length monthlyTotals < 2 then Inr (Fin 0)
      else
        case js_get (js_index monthlyTotals 0) monthly_total.total of
          Inl e \<Rightarrow> Inl e
        | Inr recent \<Rightarrow>
            (case js_get (js_index monthlyTotals 1) monthly_total.total of
               Inl e \<Rightarrow> Inl e
             | Inr previous \<Rightarrow>
                 (let trend = js_sub recent previous
                  in Inr (Math_max (Fin 0) (js_add recent trend)))))"

text \<open>
  The blocks of \<open>generateInsights\<close> return, next to their value, the operands
  (dividend, divisor) of every division they evaluate, in evaluation order.
\<close>

type_synonym division = "jsnum \<times> jsnum"

text \<open>
  Lines 31 to 42, the block under the comment \<open>Category recommendations\<close>. The list
  \<open>insights.recommendations\<close> starts empty and receives at most one \<open>push\<close>.
\<close>

definition category_recommendations ::
  "(real \<Rightarrow> string) \<Rightarrow> category_total list \<Rightarrow> division list \<times> (js_error + string list)" where
  "category_recommendations toStr categoryTotals =
     (if 0 < length categoryTotals then
        (let total = foldl (\<lambda>sum cat. js_add sum (category_total.total cat)) (Fin 0)
                       categoryTotals
         in case js_index categoryTotals 0 of
              None \<Rightarrow> ([], Inl TypeError)
            | Some highest \<Rightarrow>
                (let percentage =
                       js_mul (js_div (category_total.total highest) total) (Fin 100)
                 in ([(category_total.total highest, total)],
                     Inr (if js_gt percentage (Fin 50)
                          then [] @ [''Consider reducing '' @ category_total.category highest
                                     @ '' spending ('' @ toFixed1 toStr percentage
                                     @ ''% of total)'']
                          else []))))
      else ([], Inr []))"

text \<open>
  Lines 44 to 56, the block under the comment \<open>Anomaly detection\<close>;
  \<open>insights.anomalies\<close> stays the empty list when there are no expenses.
\<close>

definition anomaly_detection :: "expense list \<Rightarrow> division list \<times> anomaly list" where
  "anomaly_detection exps =
     (if 0 < length exps then
        (let amounts = map expense.amount exps;
             s = foldl (\<lambda>sum amt. js_add sum amt) (Fin 0) amounts;
             avg = js_div s (Fin (real (length amounts)));
             threshold = js_mul avg (Fin 2);
             flagged = filter (\<lambda>exp. js_gt (expense.amount exp) threshold) exps
         in ([(s, Fin (real (length amounts)))],
             map (\<lambda>exp. \<lparr>anomaly.date = expense.date exp,
                          anomaly.amount = expense.amount exp,
                          anomaly.description = expense.description exp\<rparr>) flagged))
      else ([], []))"

text \<open>\<open>generateInsights\<close>, lines 24 to 59. An exception ends the call where it is raised.\<close>

definition generateInsights ::
  "(real \<Rightarrow> string) \<Rightarrow> expense list \<Rightarrow> category_total list \<Rightarrow> monthly_total list
     \<Rightarrow> division list \<times> (js_error + insights)" where
  "generateInsights toStr exps categoryTotals monthlyTotals =
     (case predictNextMonth monthlyTotals of
        Inl e \<Rightarrow> ([], Inl e)
      | Inr next \<Rightarrow>
          (case category_recommendations toStr categoryTotals of
             (d1, Inl e) \<Rightarrow> (d1, Inl e)
           | (d1, Inr recs) \<Rightarrow>
               (case anomaly_detection exps of
                  (d2, anoms) \<Rightarrow>
                    (d1 @ d2,
                     Inr \<lparr>predictions = \<lparr>nextMonth = next\<rparr>,
                          recommendations = recs,
                          anomalies = anoms\<rparr>))))"


section \<open>The record store (backend/config/database.js)\<close>

text \<open>
  The table \<open>expenses\<close>, its rows in insertion order. The three read methods of
  \<open>DatabaseManager\<close> each run one SQL statement; the functions below are what the
  statements evaluate to on a table. SQL leaves the order of rows with equal sort keys to
  the engine; the model keeps such rows in the order they had before sorting, and no
  theorem below depends on that choice.
\<close>

type_synonym table = "expense list"

text \<open>\<open>ORDER BY key DESC\<close>.\<close>

definition order_by_desc :: "('a \<Rightarrow> 'k::linorder) \<Rightarrow> 'a list \<Rightarrow> 'a list" where
  "order_by_desc key rows = rev (sort_key key (rev rows))"

text \<open>
  The order of a \<open>REAL\<close> column: \<open>NULL\<close> first (SQLite stores a sum that is not a number
  as \<open>NULL\<close>), then the negative infinity, the finite values, the positive infinity.
\<close>

fun sql_order :: "jsnum \<Rightarrow> nat \<times> real" where
  "sql_order NaN = (0, 0)"
| "sql_order NegInf = (1, 0)"
| "sql_order (Fin x) = (2, x)"
| "sql_order PosInf = (3, 0)"

text \<open>
  The pattern of \<open>date LIKE ?\<close>: the year, a hyphen, the month padded to two digits, and
  the wildcard \<open>%\<close>. The part before the wildcard holds digits and a hyphen only, so
  the pattern matches exactly the dates that start with it.
\<close>

definition yearMonth :: "nat \<Rightarrow> nat \<Rightarrow> string" where
  "yearMonth year mon = show_nat year @ ''-'' @ padStart2 (show_nat mon)"

definition like_prefix :: "string \<Rightarrow> string \<Rightarrow> bool" where
  "like_prefix p s = (take (length p) s = p)"

text \<open>
  \<open>SELECT * FROM expenses WHERE date LIKE ? ORDER BY date DESC\<close>
  (\<open>getExpensesByMonth\<close>, lines 255 to 287).
\<close>

definition select_expenses_by_month :: "table \<Rightarrow> nat \<Rightarrow> nat \<Rightarrow> expense list" where
  "select_expenses_by_month tbl year mon =
     order_by_desc expense.date
       (filter (\<lambda>r. like_prefix (yearMonth year mon) (expense.date r)) tbl)"

text \<open>
  The aggregate \<open>SUM(amount)\<close> is computed by the engine and returns a double. How the
  engine adds (one value after the other, or with a compensation term) is not fixed by the
  program: the aggregate is the parameter \<open>agg\<close> of the statements below, applied to the
  amounts of a group in table order. \<open>double_sum\<close> is the aggregate that adds one value
  after the other.
\<close>

definition double_sum :: "jsnum list \<Rightarrow> jsnum" where
  "double_sum xs = foldl js_add (Fin 0) xs"

text \<open>
  \<open>SELECT category, SUM(amount) as total ... GROUP BY category\<close> on the given rows, the
  groups in ascending order of category, as the sorter that forms them leaves them.
\<close>

definition group_by_category :: "(jsnum list \<Rightarrow> jsnum) \<Rightarrow> expense list \<Rightarrow> category_total list" where
  "group_by_category agg rows =
     map (\<lambda>c. \<lparr>category_total.category = c,
                category_total.total =
                  agg (map expense.amount (filter (\<lambda>r. expense.category r = c) rows))\<rparr>)
       (sort (remdups (map expense.category rows)))"

text \<open>
  \<open>SELECT category, SUM(amount) as total FROM expenses WHERE date LIKE ?
  GROUP BY category ORDER BY total DESC\<close> (\<open>getCategoryTotals\<close>, lines 289 to 333).
\<close>

definition select_category_totals ::
  "(jsnum list \<Rightarrow> jsnum) \<Rightarrow> table \<Rightarrow> nat \<Rightarrow> nat \<Rightarrow> category_total list" where
  "select_category_totals agg tbl year mon =
     order_by_desc (\<lambda>c. sql_order (category_total.total c))
       (group_by_category agg
          (filter (\<lambda>r. like_prefix (yearMonth year mon) (expense.date r)) tbl))"

text \<open>
  \<open>SELECT strftime('%Y-%m', date) as month, SUM(amount) as total ...
  GROUP BY strftime('%Y-%m', date)\<close> on the given rows. The engine's function that formats
  a stored date as year and month (\<open>strftime\<close> in SQLite, \<open>DATE_FORMAT\<close> in MySQL,
  \<open>TO_CHAR\<close> in PostgreSQL) is the parameter \<open>fmt\<close>; it yields \<open>NULL\<close> on a text that
  is no date.
\<close>

definition group_by_month ::
  "(string \<Rightarrow> string option) \<Rightarrow> (jsnum list \<Rightarrow> jsnum) \<Rightarrow> expense list \<Rightarrow> monthly_total list" where
  "group_by_month fmt agg rows =
     map (\<lambda>k. \<lparr>monthly_total.month = k,
                monthly_total.total =
                  agg (map expense.amount (filter (\<lambda>r. fmt (expense.date r) = k) rows))\<rparr>)
       (remdups (map (\<lambda>r. fmt (expense.date r)) rows))"

text \<open>
  The statement of \<open>getMonthlyTotals\<close>, lines 335 to 379: the groups by month,
  \<open>ORDER BY month DESC LIMIT 6\<close>.
\<close>

definition select_monthly_totals ::
  "(string \<Rightarrow> string option) \<Rightarrow> (jsnum list \<Rightarrow> jsnum) \<Rightarrow> table \<Rightarrow> monthly_total list" where
  "select_monthly_totals fmt agg tbl =
     take 6 (order_by_desc monthly_total.month (group_by_month fmt agg tbl))"

text \<open>
  A read of the store either resolves with rows or rejects. The routes use the store
  through the object \<open>dbOperations\<close>; a read takes the state of the store and returns the
  state after it.
\<close>

datatype db_error = NotConnected | QueryFailed string

record 's dbOperations =
  getExpensesByMonth :: "nat \<Rightarrow> nat \<Rightarrow> 's \<Rightarrow> (db_error + expense list) \<times> 's"
  getCategoryTotals :: "nat \<Rightarrow> nat \<Rightarrow> 's \<Rightarrow> (db_error + category_total list) \<times> 's"
  getMonthlyTotals :: "'s \<Rightarrow> (db_error + monthly_total list) \<times> 's"

text \<open>
  The \<open>DatabaseManager\<close> behind \<open>dbOperations\<close>. Its handle \<open>this.db\<close> is \<open>null\<close>
  (here \<open>None\<close>) until a connection is open, and a read through the null handle rejects;
  with a connection, a read resolves with the rows of its statement and leaves the table
  as it is. A query that the engine rejects on an open connection is a behaviour of the
  interface \<open>dbOperations\<close> above, not of this instance.
\<close>

type_synonym database = "table option"

definition dbManager ::
  "(string \<Rightarrow> string option) \<Rightarrow> (jsnum list \<Rightarrow> jsnum) \<Rightarrow> database dbOperations" where
  "dbManager fmt agg =
     \<lparr>getExpensesByMonth = (\<lambda>year mon db.
        (case db of None \<Rightarrow> Inl NotConnected
                  | Some tbl \<Rightarrow> Inr (select_expenses_by_month tbl year mon), db)),
      getCategoryTotals = (\<lambda>year mon db.
        (case db of None \<Rightarrow> Inl NotConnected
                  | Some tbl \<Rightarrow> Inr (select_category_totals agg tbl year mon), db)),
      getMonthlyTotals = (\<lambda>db.
        (case db of None \<Rightarrow> Inl NotConnected
                  | Some tbl \<Rightarrow> Inr (select_monthly_totals fmt agg tbl), db))\<rparr>"


section \<open>The routes (backend/server.js)\<close>

text \<open>The object the \<open>/report\<close> route sends.\<close>

record report =
  expenses :: "expense list"
  categoryTotals :: "category_total list"
  monthlyTotals :: "monthly_total list"
  totalSpending :: jsnum
  isOverBudget :: bool
  budgetLimit :: jsnum

datatype body = Report report | Insights insights | Error string

record response =
  status :: nat
  body :: body

text \<open>
  Lines 100 to 109: the report built from the three results. The local variable
  \<open>totalSpending\<close> of the source is \<open>spending\<close> here.
\<close>

definition report_body :: "expense list \<Rightarrow> category_total list \<Rightarrow> monthly_total list \<Rightarrow> report" where
  "report_body exps cats months =
     (let spending = foldl (\<lambda>sum exp. js_add sum (expense.amount exp)) (Fin 0) exps
      in \<lparr>expenses = exps,
          categoryTotals = cats,
          monthlyTotals = months,
          totalSpending = js_div (Math_round (js_mul spending (Fin 100))) (Fin 100),
          isOverBudget = js_gt spending (Fin 5000),
          budgetLimit = Fin 5000\<rparr>)"

text \<open>
  \<open>await Promise.all([...])\<close> over the three reads, which are started in the order
  written, each exactly once. The results come back together, or the \<open>await\<close> throws a
  rejection; the handlers never look at which one.
\<close>

definition three_reads ::
  "'s dbOperations \<Rightarrow> nat \<Rightarrow> nat \<Rightarrow> 's
     \<Rightarrow> (db_error + expense list \<times> category_total list \<times> monthly_total list) \<times> 's" where
  "three_reads ops year mon s =
     (case getExpensesByMonth ops year mon s of
        (r1, s1) \<Rightarrow>
          (case getCategoryTotals ops year mon s1 of
             (r2, s2) \<Rightarrow>
               (case getMonthlyTotals ops s2 of
                  (r3, s3) \<Rightarrow>
                    (case r1 of
                       Inl e \<Rightarrow> Inl e
                     | Inr exps \<Rightarrow>
                         (case r2 of
                            Inl e \<Rightarrow> Inl e
                          | Inr cats \<Rightarrow>
                              (case r3 of
                                 Inl e \<Rightarrow> Inl e
                               | Inr months \<Rightarrow> Inr (exps, cats, months))),
                     s3))))"

text \<open>
  \<open>app.get('/report')\<close>, lines 89 to 113, for the year and month the clock gives. Any
  exception in the \<open>try\<close> block ends in the \<open>catch\<close>, which answers with status 500.
\<close>

definition get_report :: "'s dbOperations \<Rightarrow> nat \<Rightarrow> nat \<Rightarrow> 's \<Rightarrow> response \<times> 's" where
  "get_report ops currentYear currentMonth s =
     (case three_reads ops currentYear currentMonth s of
        (Inr (exps, cats, months), s') \<Rightarrow>
          (\<lparr>status = 200, body = Report (report_body exps cats months)\<rparr>, s')
      | (Inl e, s') \<Rightarrow>
          (\<lparr>status = 500, body = Error ''Failed to generate report''\<rparr>, s'))"

text \<open>\<open>app.get('/ai-insights')\<close>, lines 115 to 132.\<close>

definition get_ai_insights ::
  "(real \<Rightarrow> string) \<Rightarrow> 's dbOperations \<Rightarrow> nat \<Rightarrow> nat \<Rightarrow> 's \<Rightarrow> response \<times> 's" where
  "get_ai_insights toStr ops currentYear currentMonth s =
     (case three_reads ops currentYear currentMonth s of
        (Inr (exps, cats, months), s') \<Rightarrow>
          (case snd (generateInsights toStr exps cats months) of
             Inr ins \<Rightarrow> (\<lparr>status = 200, body = Insights ins\<rparr>, s')
           | Inl e \<Rightarrow> (\<lparr>status = 500, body = Error ''Failed to generate insights''\<rparr>, s'))
      | (Inl e, s') \<Rightarrow>
          (\<lparr>status = 500, body = Error ''Failed to generate insights''\<rparr>, s'))"


section \<open>Example data\<close>

text \<open>
  A stored expense with the given id, date, category, amount and description. The route
  \<open>/add-expense\<close> stores \<open>parseFloat(amount)\<close>, the double nearest to the decimal
  number it reads.
\<close>

definition row :: "nat \<Rightarrow> string \<Rightarrow> string \<Rightarrow> real \<Rightarrow> string \<Rightarrow> expense" where
  "row i d c a descr =
     \<lparr>id = i, date = d, category = c, amount = fl a, description = Some descr,
      created_at = ''2024-01-20 00:00:00''\<rparr>"


text \<open>Three expenses of 100 and one of 1000: mean 325, threshold 650.\<close>

definition four_expenses :: "expense list" where
  "four_expenses =
     [row 1 ''2024-01-15'' ''Food'' 100 ''Lunch'',
      row 2 ''2024-01-16'' ''Food'' 100 ''Dinner'',
      row 3 ''2024-01-17'' ''Travel'' 100 ''Taxi'',
      row 4 ''2024-01-18'' ''Shopping'' 1000 ''Phone'']"


text \<open>The rows \<open>insertSampleData\<close> puts into an empty table.\<close>

definition sampleExpenses :: table where
  "sampleExpenses =
     [row 1 ''2024-01-15'' ''Food'' 1200 ''Grocery shopping'',
      row 2 ''2024-01-16'' ''Travel'' 800 ''Uber rides'',
      row 3 ''2024-01-17'' ''Shopping'' 2500 ''New clothes'',
      row 4 ''2024-01-18'' ''Food'' 600 ''Restaurant dinner'',
      row 5 ''2024-01-19'' ''Other'' 300 ''Movie tickets'']"

text \<open>
  A formatter for the examples: the first seven characters, which is what the engines
  return for a valid calendar date written as year-month-day. The theorems hold for every
  formatter.
\<close>

definition iso_month :: "string \<Rightarrow> string option" where
  "iso_month d = Some (take 7 d)"

text \<open>Nine expenses in eight different months.\<close>

definition eight_months :: table where
  "eight_months =
     [row 1 ''2023-11-05'' ''Food'' 10 ''a'',
      row 2 ''2024-03-01'' ''Food'' 20 ''b'',
      row 3 ''2024-01-15'' ''Travel'' 30 ''c'',
      row 4 ''2023-12-24'' ''Other'' 40 ''d'',
      row 5 ''2024-06-30'' ''Food'' 50 ''e'',
      row 6 ''2024-02-29'' ''Food'' 60 ''f'',
      row 7 ''2024-05-09'' ''Travel'' 70 ''g'',
      row 8 ''2024-04-17'' ''Food'' 80 ''h'',
      row 9 ''2024-06-02'' ''Other'' 90 ''i'']"

text \<open>
  A store that counts the reads it serves; its category query rejects, the other two
  resolve.
\<close>

definition busy_store :: "nat dbOperations" where
  "busy_store =
     \<lparr>getExpensesByMonth = (\<lambda>year mon n. (Inr sampleExpenses, n + 1)),
      getCategoryTotals = (\<lambda>year mon n. (Inl (QueryFailed ''SQLITE_BUSY''), n + 1)),
      getMonthlyTotals = (\<lambda>n. (Inr [], n + 1))\<rparr>"

text \<open>One expense of 5000.004 in January 2024.\<close>

definition rent_only :: table where
  "rent_only = [row 1 ''2024-01-15'' ''Rent'' 5000.004 ''January rent'']"

text \<open>Two expenses that add up to the budget limit.\<close>

definition exactly_limit :: table where
  "exactly_limit =
     [row 1 ''2024-01-15'' ''Rent'' 4000 ''January rent'',
      row 2 ''2024-01-20'' ''Food'' 1000 ''Groceries'']"



section \<open>Theorems\<close>

subsection \<open>Facts about doubles\<close>

text \<open>
  The exponent brackets a positive number between two powers of two, and rounding is
  monotone at the numbers that are doubles: a number below such a bound rounds to a double
  below it. \<open>double_eval\<close> evaluates a rounding on a given number.
\<close>

lemma real_pow2_le: "2 ^ k \<le> n \<Longrightarrow> (2::real) ^ k \<le> real n"
  by (metis of_nat_le_iff of_nat_numeral of_nat_power)

lemma real_less_pow2: "n < 2 ^ k \<Longrightarrow> real n + 1 \<le> (2::real) ^ k"
proof -
  assume "n < 2 ^ k"
  then have "Suc n \<le> 2 ^ k" by simp
  then have "real (Suc n) \<le> real (2 ^ k)" by (simp only: of_nat_le_iff)
  then show ?thesis by (simp only: of_nat_Suc of_nat_power of_nat_numeral)
qed

lemma real_le_pow2: "n \<le> 2 ^ k \<Longrightarrow> real n \<le> (2::real) ^ k"
  by (metis of_nat_le_iff of_nat_numeral of_nat_power)

lemma ilog2_bounds: "0 < n \<Longrightarrow> 2 ^ ilog2 n \<le> n \<and> n < 2 ^ Suc (ilog2 n)"
proof (induction n rule: ilog2.induct)
  case (1 n)
  show ?case
  proof (cases "n < 2")
    case True
    with "1.prems" have "n = 1" by simp
    then show ?thesis by (simp add: ilog2.simps)
  next
    case False
    then have h: "0 < n div 2" by simp
    from "1.IH" [OF False h]
    have "2 ^ ilog2 (n div 2) \<le> n div 2" and "n div 2 < 2 ^ Suc (ilog2 (n div 2))"
      by simp_all
    moreover have "ilog2 n = Suc (ilog2 (n div 2))"
      using False by (subst ilog2.simps) simp
    ultimately show ?thesis by auto
  qed
qed

lemma pow2_less_cancel: "(2::real) powi a < 2 powi b \<Longrightarrow> a < b"
proof (rule ccontr)
  assume "2 powi a < (2::real) powi b" and "\<not> a < b"
  then have "(2::real) powi b \<le> 2 powi a"
    by (intro power_int_increasing) simp_all
  with \<open>2 powi a < (2::real) powi b\<close> show False by simp
qed

lemma pow2_add: "(2::real) powi (a + b) = 2 powi a * 2 powi b"
  by (rule power_int_add) simp

lemma pow2_diff: "(2::real) powi (a - b) = 2 powi a / 2 powi b"
  by (rule power_int_diff) simp

lemma expo_bounds_ge1:
  assumes "1 \<le> a"
  shows "2 powi (expo a) \<le> a \<and> a < 2 powi (expo a + 1)"
proof -
  define n where "n = nat \<lfloor>a\<rfloor>"
  have "0 \<le> \<lfloor>a\<rfloor>" using assms by simp
  then have rn: "real n = of_int \<lfloor>a\<rfloor>" by (simp add: n_def)
  have n0: "0 < n" using assms by (simp add: n_def)
  have n1: "real n \<le> a" unfolding rn by (rule of_int_floor_le)
  have n2: "a < real n + 1" unfolding rn by linarith
  from ilog2_bounds [OF n0]
  have i1: "2 ^ ilog2 n \<le> n" and i2: "n < 2 ^ Suc (ilog2 n)" by simp_all
  have "(2::real) ^ ilog2 n \<le> real n"
    using i1 by (rule real_pow2_le)
  then have b1: "2 ^ ilog2 n \<le> a" using n1 by (rule order_trans)
  have "real n + 1 \<le> 2 ^ Suc (ilog2 n)"
    using i2 by (rule real_less_pow2)
  with n2 have b2: "a < 2 ^ Suc (ilog2 n)" by (rule less_le_trans)
  have e: "expo a = int (ilog2 n)"
    using assms by (simp add: expo_def n_def)
  have "int (ilog2 n) + 1 = int (Suc (ilog2 n))" by simp
  then have "(2::real) powi (expo a + 1) = 2 ^ Suc (ilog2 n)"
    unfolding e by (simp only: power_int_of_nat)
  moreover have "(2::real) powi (expo a) = 2 ^ ilog2 n"
    unfolding e by (simp only: power_int_of_nat)
  ultimately show ?thesis using b1 b2 by simp
qed

lemma expo_bounds_lt1:
  assumes "0 < a" and "a < 1"
  shows "2 powi (expo a) \<le> a \<and> a < 2 powi (expo a + 1)"
proof -
  define b where "b = 1 / a"
  define N where "N = nat \<lceil>b\<rceil>"
  define c where "c = Suc (ilog2 (N - 1))"
  have b1: "1 < b" using assms by (simp add: b_def)
  then have cb: "2 \<le> \<lceil>b\<rceil>" by linarith
  then have rN: "real N = of_int \<lceil>b\<rceil>" unfolding N_def by (simp only: of_nat_nat) 
  have N2: "2 \<le> N" unfolding N_def using cb by linarith
  have Nb1: "b \<le> real N" unfolding rN by (rule le_of_int_ceiling)
  have Nb2: "real N - 1 < b" unfolding rN by linarith
  from N2 have "0 < N - 1" by simp
  from ilog2_bounds [OF this]
  have i1: "2 ^ (c - 1) \<le> N - 1" and i2: "N - 1 < 2 ^ c" by (simp_all add: c_def)
  have r1: "real (N - 1) = real N - 1"
    using N2 by (simp add: of_nat_diff)
  have "(2::real) ^ (c - 1) \<le> real (N - 1)"
    using i1 by (rule real_pow2_le)
  then have l: "2 ^ (c - 1) < b" using Nb2 r1 by linarith
  have "real (N - 1) + 1 \<le> 2 ^ c"
    using i2 by (rule real_less_pow2)
  then have u: "b \<le> 2 ^ c" using Nb1 r1 by linarith
  have e: "expo a = - int c"
    using assms by (simp add: expo_def N_def c_def b_def)
  have p1: "(2::real) powi (- int c) = inverse (2 ^ c)"
    by (simp only: power_int_minus power_int_of_nat)
  have "- int c + 1 = - int (c - 1)" by (simp add: c_def)
  then have p2: "(2::real) powi (- int c + 1) = inverse (2 ^ (c - 1))"
    by (simp only: power_int_minus power_int_of_nat)
  have ab: "a = inverse b" by (simp add: b_def)
  have bpos: "0 < b" using b1 by simp
  have "inverse ((2::real) ^ c) \<le> inverse b"
    using u bpos by (rule le_imp_inverse_le)
  moreover have "inverse b < inverse ((2::real) ^ (c - 1))"
    using l by (rule less_imp_inverse_less) simp
  ultimately have "inverse ((2::real) ^ c) \<le> a" and "a < inverse ((2::real) ^ (c - 1))"
    unfolding ab by simp_all
  moreover have "(2::real) powi (expo a) = inverse (2 ^ c)"
    unfolding e by (rule p1)
  moreover have "(2::real) powi (expo a + 1) = inverse (2 ^ (c - 1))"
    unfolding e by (rule p2)
  ultimately show ?thesis by simp
qed

lemma expo_bounds:
  assumes "0 < a"
  shows "2 powi (expo a) \<le> a" and "a < 2 powi (expo a + 1)"
  using expo_bounds_ge1 [of a] expo_bounds_lt1 [of a] assms
  by (cases "1 \<le> a"; simp)+

lemma rne_cases: "rne y = \<lfloor>y\<rfloor> \<or> rne y = \<lfloor>y\<rfloor> + 1"
  by (simp add: rne_def Let_def)

lemma rne_of_int [simp]: "rne (of_int n) = n"
  by (simp add: rne_def)

lemma rne_le_int: "y \<le> of_int n \<Longrightarrow> rne y \<le> n"
proof -
  assume a: "y \<le> of_int n"
  then have f: "\<lfloor>y\<rfloor> \<le> n" by (simp add: floor_le_iff)
  show ?thesis
  proof (cases "\<lfloor>y\<rfloor> = n")
    case True
    then have "y = of_int n" using a by linarith
    then show ?thesis by simp
  next
    case False
    with f have "\<lfloor>y\<rfloor> + 1 \<le> n" by simp
    then show ?thesis using rne_cases [of y] by auto
  qed
qed

lemma int_le_rne: "of_int n \<le> y \<Longrightarrow> n \<le> rne y"
proof -
  assume "of_int n \<le> y"
  then have "n \<le> \<lfloor>y\<rfloor>" by (simp add: le_floor_iff)
  then show ?thesis using rne_cases [of y] by auto
qed

lemma nearest_nonneg: "0 \<le> x \<Longrightarrow> 0 \<le> nearest x"
proof -
  assume "0 \<le> x"
  then have "of_int 0 \<le> x / 2 powi ulp_exp x" by simp
  then have "0 \<le> rne (x / 2 powi ulp_exp x)" by (rule int_le_rne)
  then show ?thesis by (simp add: nearest_def)
qed

lemma nearest_nonpos: "x \<le> 0 \<Longrightarrow> nearest x \<le> 0"
proof -
  assume "x \<le> 0"
  then have "x / 2 powi ulp_exp x \<le> of_int 0" by (simp add: divide_nonpos_pos)
  then have "rne (x / 2 powi ulp_exp x) \<le> 0" by (rule rne_le_int)
  then show ?thesis by (simp add: nearest_def mult_nonpos_nonneg)
qed

lemma ulp_exp_le:
  assumes "0 < x" and "x \<le> of_int m * 2 powi k" and "m < 2 ^ 53" and "- 1074 \<le> k"
  shows "ulp_exp x \<le> k"
proof (cases "expo x - 52 \<le> - 1074")
  case True
  then show ?thesis using assms(1,4) by (simp add: ulp_exp_def)
next
  case False
  have "2 powi expo x \<le> x" using assms(1) by (rule expo_bounds)
  also have "x \<le> of_int m * 2 powi k" by (rule assms(2))
  also have "of_int m * (2::real) powi k < 2 ^ 53 * 2 powi k"
  proof (rule mult_strict_right_mono)
    have "real_of_int m < real_of_int (2 ^ 53)" using assms(3) by (simp only: of_int_less_iff)
    then show "real_of_int m < 2 ^ 53" by simp
  qed simp
  also have "(2::real) ^ 53 * 2 powi k = 2 powi (53 + k)"
    by (simp add: pow2_add)
  finally have "expo x < 53 + k" by (rule pow2_less_cancel)
  then show ?thesis using False assms(1) by (simp add: ulp_exp_def)
qed

lemma scaled_int:
  assumes "e \<le> k"
  shows "of_int m * (2::real) powi k / 2 powi e = of_int (m * 2 ^ nat (k - e))"
proof -
  have "(2::real) powi k / 2 powi e = 2 powi (k - e)"
    by (simp add: pow2_diff)
  also have "\<dots> = 2 ^ nat (k - e)"
    using assms by (simp add: power_int_nonneg_exp)
  finally have eq: "(2::real) powi k / 2 powi e = 2 ^ nat (k - e)" .
  have "of_int m * (2::real) powi k / 2 powi e = of_int m * (2 powi k / 2 powi e)"
    by simp
  also have "\<dots> = of_int m * 2 ^ nat (k - e)"
    by (simp only: eq)
  also have "\<dots> = of_int (m * 2 ^ nat (k - e))"
    by simp
  finally show ?thesis .
qed

lemma nearest_le:
  assumes "0 < x" and "x \<le> of_int m * 2 powi k" and "m < 2 ^ 53" and "- 1074 \<le> k"
  shows "nearest x \<le> of_int m * 2 powi k"
proof -
  define e where "e = ulp_exp x"
  define N where "N = m * 2 ^ nat (k - e)"
  have ek: "e \<le> k" unfolding e_def using assms by (rule ulp_exp_le)
  have cN: "of_int m * (2::real) powi k / 2 powi e = of_int N"
    unfolding N_def using ek by (rule scaled_int)
  have "x / 2 powi e \<le> of_int m * 2 powi k / 2 powi e"
    using assms(2) by (simp add: divide_right_mono)
  then have "x / 2 powi e \<le> of_int N" unfolding cN .
  then have "rne (x / 2 powi e) \<le> N" by (rule rne_le_int)
  then have "real_of_int (rne (x / 2 powi e)) \<le> of_int N" by (simp only: of_int_le_iff)
  then have "of_int (rne (x / 2 powi e)) * 2 powi e \<le> of_int N * (2::real) powi e"
    by (rule mult_right_mono) simp
  also have "of_int N * (2::real) powi e = of_int m * 2 powi k"
    unfolding cN [symmetric] by simp
  finally show ?thesis unfolding nearest_def e_def .
qed

lemma nearest_ge:
  assumes "0 < m" and "of_int m * 2 powi k \<le> x" and "m < 2 ^ 53" and "- 1074 \<le> k"
  shows "of_int m * 2 powi k \<le> nearest x"
proof -
  define e where "e = ulp_exp x"
  have cpos: "0 < of_int m * (2::real) powi k" using assms(1) by simp
  then have xpos: "0 < x" using assms(2) by linarith
  show ?thesis
  proof (cases "e \<le> k")
    case True
    define N where "N = m * 2 ^ nat (k - e)"
    have cN: "of_int m * (2::real) powi k / 2 powi e = of_int N"
      unfolding N_def using True by (rule scaled_int)
    have "of_int m * 2 powi k / 2 powi e \<le> x / 2 powi e"
      using assms(2) by (simp add: divide_right_mono)
    then have "of_int N \<le> x / 2 powi e" unfolding cN .
    then have "N \<le> rne (x / 2 powi e)" by (rule int_le_rne)
    then have "real_of_int N \<le> of_int (rne (x / 2 powi e))" by (simp only: of_int_le_iff)
    then have "of_int N * (2::real) powi e \<le> of_int (rne (x / 2 powi e)) * 2 powi e"
      by (rule mult_right_mono) simp
    moreover have "of_int N * (2::real) powi e = of_int m * 2 powi k"
      unfolding cN [symmetric] by simp
    ultimately have "of_int m * (2::real) powi k \<le> of_int (rne (x / 2 powi e)) * 2 powi e"
      by (simp only:)
    then show ?thesis unfolding nearest_def e_def .
  next
    case False
    then have ke: "k < e" by simp
    with assms(4) have "e \<noteq> - 1074" by simp
    then have e52: "e = expo x - 52"
      using xpos by (simp add: e_def ulp_exp_def max_def split: if_splits)
    have "real_of_int m < real_of_int (2 ^ 53)" using assms(3) by (simp only: of_int_less_iff)
    then have "real_of_int m < 2 ^ 53" by simp
    then have "of_int m * (2::real) powi k < 2 ^ 53 * 2 powi k"
      by (rule mult_strict_right_mono) simp
    also have "(2::real) ^ 53 * 2 powi k = 2 powi (53 + k)"
      by (simp add: pow2_add)
    also have "(2::real) powi (53 + k) \<le> 2 powi (52 + e)"
      using ke by (intro power_int_increasing) simp_all
    finally have c_lt: "of_int m * (2::real) powi k < 2 powi (52 + e)" .
    have "(2::real) powi (52 + e) = 2 powi expo x" by (simp add: e52)
    also have "\<dots> \<le> x" using xpos by (rule expo_bounds)
    finally have "(2::real) powi (52 + e) / 2 powi e \<le> x / 2 powi e"
      by (simp add: divide_right_mono)
    moreover have "(2::real) powi (52 + e) / 2 powi e = of_int (2 ^ 52)"
      by (simp add: pow2_add)
    ultimately have "of_int (2 ^ 52) \<le> x / 2 powi e" by simp
    then have "2 ^ 52 \<le> rne (x / 2 powi e)" by (rule int_le_rne)
    then have "real_of_int (2 ^ 52) \<le> of_int (rne (x / 2 powi e))" by (simp only: of_int_le_iff)
    then have "of_int (2 ^ 52) * (2::real) powi e \<le> of_int (rne (x / 2 powi e)) * 2 powi e"
      by (rule mult_right_mono) simp
    moreover have "of_int (2 ^ 52) * (2::real) powi e = 2 powi (52 + e)"
      by (simp add: pow2_add)
    ultimately have "(2::real) powi (52 + e) \<le> of_int (rne (x / 2 powi e)) * 2 powi e"
      by (simp only:)
    then have "2 powi (52 + e) \<le> nearest x"
      unfolding nearest_def e_def .
    with c_lt show ?thesis by linarith
  qed
qed

lemmas double_eval = fl_def nearest_def ulp_exp_def expo_def rne_def ilog2.simps Let_def

lemma fl_cases:
  "fl x = Fin (nearest x) \<or> (fl x = PosInf \<and> 0 < x) \<or> (fl x = NegInf \<and> x < 0)"
  using nearest_nonneg [of x] nearest_nonpos [of x]
  by (cases "x = 0") (auto simp add: fl_def nearest_def)

lemma fl_le:
  assumes "x \<le> of_int m * 2 powi k" and "0 < m" and "m < 2 ^ 53" and "- 1074 \<le> k"
    and "of_int m * 2 powi k < (2::real) ^ 1024"
  shows "\<not> js_gt (fl x) (Fin (of_int m * 2 powi k))"
proof (cases "0 < x")
  case True
  have le: "nearest x \<le> of_int m * 2 powi k"
    using True assms(1,3,4) by (rule nearest_le)
  moreover have "0 \<le> nearest x" using True by (simp add: nearest_nonneg)
  ultimately have "\<bar>nearest x\<bar> < 2 ^ 1024" using assms(5) by simp
  then have "fl x = Fin (nearest x)" using True by (simp add: fl_def)
  then show ?thesis using le by simp
next
  case False
  have cpos: "0 < of_int m * (2::real) powi k" using assms(2) by simp
  from False have "nearest x \<le> 0" by (simp add: nearest_nonpos)
  with cpos have "nearest x < of_int m * 2 powi k" by linarith
  then show ?thesis using fl_cases [of x] False by auto
qed

lemma fl_ge:
  assumes "of_int m * 2 powi k \<le> x" and "0 < m" and "m < 2 ^ 53" and "- 1074 \<le> k"
  shows "\<not> js_gt (Fin (of_int m * 2 powi k)) (fl x)"
proof -
  have cpos: "0 < of_int m * (2::real) powi k" using assms(2) by simp
  then have xpos: "0 < x" using assms(1) by linarith
  have "of_int m * 2 powi k \<le> nearest x"
    using assms(2,1,3,4) by (rule nearest_ge)
  then show ?thesis using fl_cases [of x] xpos by auto
qed

lemma fl_exact:
  assumes "0 < m" and "m < 2 ^ 53" and "- 1074 \<le> k"
    and "of_int m * 2 powi k < (2::real) ^ 1024"
  shows "fl (of_int m * 2 powi k) = Fin (of_int m * 2 powi k)"
proof -
  define c :: real where "c = of_int m * 2 powi k"
  have cpos: "0 < c" using assms(1) by (simp add: c_def)
  have "nearest c \<le> c"
    unfolding c_def using cpos [unfolded c_def] order_refl assms(2,3) by (rule nearest_le)
  moreover have "c \<le> nearest c"
    unfolding c_def using assms(1) order_refl assms(2,3) by (rule nearest_ge)
  ultimately have n: "nearest c = c" by simp
  have "\<bar>nearest c\<bar> < 2 ^ 1024" using n cpos assms(4) by (simp add: c_def)
  then have "fl c = Fin c" using cpos n by (simp add: fl_def)
  then show ?thesis by (simp only: c_def)
qed

lemma fl_of_nat:
  assumes "n \<le> 2 ^ 53"
  shows "fl (real n) = Fin (real n)"
proof (cases "n = 0")
  case True
  then show ?thesis by (simp add: fl_def)
next
  case False
  show ?thesis
  proof (cases "n = 2 ^ 53")
    case True
    have "fl (of_int 1 * 2 powi 53) = Fin (of_int 1 * 2 powi 53)"
      by (rule fl_exact) simp_all
    then show ?thesis using True by simp
  next
    case False
    with assms have "n < 2 ^ 53" by simp
    then have "int n < 2 ^ 53" by (metis of_nat_less_iff of_nat_numeral of_nat_power)
    moreover have "0 < int n" using \<open>n \<noteq> 0\<close> by simp
    moreover have "real_of_int (int n) * 2 powi 0 < 2 ^ 1024"
    proof -
      have "real n < 2 ^ 53" using \<open>n < 2 ^ 53\<close>
        by (metis of_nat_less_iff of_nat_numeral of_nat_power)
      also have "(2::real) ^ 53 < 2 ^ 1024" by (rule power_strict_increasing) simp_all
      finally show ?thesis by simp
    qed
    ultimately have "fl (of_int (int n) * 2 powi 0) = Fin (of_int (int n) * 2 powi 0)"
      by (intro fl_exact) simp_all
    then show ?thesis by simp
  qed
qed

lemma fl_numeral:
  "numeral k \<le> (2::nat) ^ 53 \<Longrightarrow> fl (numeral k) = Fin (numeral k)"
  using fl_of_nat [of "numeral k"] by simp

lemma fl_le_numeral:
  assumes "x \<le> numeral k" and "numeral k < (2::int) ^ 53"
  shows "\<not> js_gt (fl x) (Fin (numeral k))"
proof -
  have "x \<le> of_int (numeral k) * 2 powi 0" using assms(1) by simp
  moreover have "real_of_int (numeral k) * 2 powi 0 < 2 ^ 1024"
  proof -
    have "real_of_int (numeral k) < real_of_int (2 ^ 53)"
      using assms(2) by (simp only: of_int_less_iff)
    also have "\<dots> < 2 ^ 1024" by simp
    finally show ?thesis by simp
  qed
  ultimately have "\<not> js_gt (fl x) (Fin (of_int (numeral k) * 2 powi 0))"
    using assms(2) by (intro fl_le) simp_all
  then show ?thesis by simp
qed

lemma fl_le_cases:
  assumes "\<not> js_gt (fl x) (Fin c)"
  shows "fl x = NegInf \<or> (\<exists>y. fl x = Fin y \<and> y \<le> c)"
  using assms fl_cases [of x] by (cases "fl x") auto



lemma expo_half_one:
  assumes "1 / 2 < z" and "z < 1"
  shows "expo z = - 1"
proof -
  have zpos: "0 < z" using assms(1) by simp
  have "2 powi expo z \<le> z" using zpos by (rule expo_bounds)
  also have "z < 2 powi 0" using assms(2) by simp
  finally have "expo z < 0" by (rule pow2_less_cancel)
  moreover have "(2::real) powi (- 1) < z" using assms(1) by (simp add: power_int_minus)
  then have "(2::real) powi (- 1) < 2 powi (expo z + 1)"
    using expo_bounds(2) [OF zpos] by (rule less_trans)
  then have "- 1 < expo z + 1" by (rule pow2_less_cancel)
  ultimately show ?thesis by simp
qed

text \<open>Above one half the next double is one half plus 2^-53.\<close>

lemma fl_above_half:
  assumes "fl z = Fin r" and "1 / 2 < r"
  shows "1 / 2 + 2 powi (- 53) \<le> r"
proof -
  have half: "(1::real) / 2 = of_int 1 * 2 powi (- 1)" by (simp add: power_int_minus)
  have z0: "z \<noteq> 0" using assms by (auto simp add: fl_def)
  have r: "r = nearest z" using assms(1) z0 by (simp add: fl_def split: if_splits)
  have zhalf: "1 / 2 < z"
  proof (rule ccontr)
    assume "\<not> 1 / 2 < z"
    then have "z \<le> of_int 1 * 2 powi (- 1)" unfolding half [symmetric] by simp
    then have "\<not> js_gt (fl z) (Fin (of_int 1 * 2 powi (- 1)))"
      by (rule fl_le) (simp_all add: power_int_minus)
    then show False using assms by (simp add: power_int_minus)
  qed
  show ?thesis
  proof (cases "z < 1")
    case True
    have e: "ulp_exp z = - 53"
      using zhalf True expo_half_one [of z] by (simp add: ulp_exp_def)
    define n where "n = rne (z / 2 powi (- 53))"
    have rn: "r = of_int n * 2 powi (- 53)"
      by (simp add: r nearest_def e n_def)
    have "(1::real) / 2 = of_int (2 ^ 52) * 2 powi (- 53)"
      by (simp add: power_int_minus)
    then have "of_int (2 ^ 52) * 2 powi (- 53) < of_int n * (2::real) powi (- 53)"
      using assms(2) rn by simp
    then have "real_of_int (2 ^ 52) < of_int n"
      by (simp only: mult_less_cancel_right_pos zero_less_power_int zero_less_numeral)
    then have "2 ^ 52 < n" by (simp only: of_int_less_iff)
    then have "2 ^ 52 + 1 \<le> n" by simp
    then have "real_of_int (2 ^ 52 + 1) \<le> of_int n" by (simp only: of_int_le_iff)
    then have "of_int (2 ^ 52 + 1) * (2::real) powi (- 53) \<le> of_int n * 2 powi (- 53)"
      by (rule mult_right_mono) simp
    moreover have "of_int (2 ^ 52 + 1) * (2::real) powi (- 53) = 1 / 2 + 2 powi (- 53)"
      by (simp add: power_int_minus field_simps)
    ultimately show ?thesis unfolding rn by simp
  next
    case False
    then have "of_int 1 * 2 powi 0 \<le> z" by simp
    then have "\<not> js_gt (Fin (of_int 1 * 2 powi 0)) (fl z)"
      by (rule fl_ge) simp_all
    then have "1 \<le> r" using assms(1) by simp
    moreover have "(2::real) powi (- 53) \<le> 1 / 2"
      by (simp add: power_int_minus)
    ultimately show ?thesis by linarith
  qed
qed

lemma times100_gt_50:
  assumes "r = 0 \<or> fl z = Fin r"
  shows "js_gt (fl (r * 100)) (Fin 50) = (1 / 2 < r)"
proof (cases "1 / 2 < r")
  case True
  then have "fl z = Fin r" using assms by auto
  then have g: "1 / 2 + 2 powi (- 53) \<le> r" using True by (rule fl_above_half)
  have "of_int (25 * 2 ^ 48 + 1) * (2::real) powi (- 47) = 50 + 2 powi (- 47)"
    by (simp add: power_int_minus field_simps)
  also have "\<dots> \<le> (1 / 2 + 2 powi (- 53)) * 100"
    by (simp add: power_int_minus)
  also have "\<dots> \<le> r * 100" using g by simp
  finally have "\<not> js_gt (Fin (of_int (25 * 2 ^ 48 + 1) * 2 powi (- 47))) (fl (r * 100))"
    by (rule fl_ge) simp_all
  moreover have "(50::real) < of_int (25 * 2 ^ 48 + 1) * 2 powi (- 47)"
    by (simp add: power_int_minus)
  ultimately have "js_gt (fl (r * 100)) (Fin 50)"
    using fl_cases [of "r * 100"] True by auto
  then show ?thesis using True by simp
next
  case False
  then have "r * 100 \<le> of_int 25 * 2 powi 1" by simp
  then have "\<not> js_gt (fl (r * 100)) (Fin (of_int 25 * 2 powi 1))"
    by (rule fl_le) simp_all
  then show ?thesis using False by simp
qed

lemma js_div_rounded:
  "js_div a b = Fin r \<Longrightarrow> r = 0 \<or> (\<exists>z. fl z = Fin r)"
  by (cases a; cases b) (auto simp add: js_inf_def split: if_splits)

lemma js_gt_percentage:
  "js_gt (js_mul (js_div a b) (Fin 100)) (Fin 50) = js_gt (js_div a b) (Fin (1 / 2))"
proof (cases "js_div a b")
  case (Fin r)
  then obtain z where "r = 0 \<or> fl z = Fin r"
    using js_div_rounded [of a b r] by auto
  then show ?thesis using Fin by (simp add: times100_gt_50)
qed (simp_all add: js_inf_def)



subsection \<open>Facts about the insight engine\<close>

lemma predictNextMonth_Inr:
  "predictNextMonth mts =
     Inr (if length mts < 2 then Fin 0
          else Math_max (Fin 0)
                 (js_add (monthly_total.total (mts ! 0))
                    (js_sub (monthly_total.total (mts ! 0)) (monthly_total.total (mts ! 1)))))"
  by (auto simp add: predictNextMonth_def js_get_def js_index_def)

lemma category_recommendations_Nil:
  "category_recommendations toStr [] = ([], Inr [])"
  by (simp add: category_recommendations_def)

lemma category_recommendations_nonempty:
  assumes "cts \<noteq> []"
  shows "category_recommendations toStr cts =
     ([(category_total.total (hd cts),
        foldl (\<lambda>sum cat. js_add sum (category_total.total cat)) (Fin 0) cts)],
      Inr (if js_gt (js_div (category_total.total (hd cts))
                       (foldl (\<lambda>sum cat. js_add sum (category_total.total cat)) (Fin 0) cts))
                 (Fin (1 / 2))
           then [''Consider reducing '' @ category_total.category (hd cts) @ '' spending (''
                 @ toFixed1 toStr
                     (js_mul (js_div (category_total.total (hd cts))
                        (foldl (\<lambda>sum cat. js_add sum (category_total.total cat)) (Fin 0) cts))
                        (Fin 100))
                 @ ''% of total)'']
           else []))"
proof -
  from assms obtain c cs where cts: "cts = c # cs" by (cases cts) auto
  show ?thesis
    unfolding cts
    by (simp add: category_recommendations_def js_index_def Let_def js_gt_percentage
        del: js_mul.simps js_div.simps js_gt.simps js_add.simps)
qed

lemma anomaly_detection_Nil: "anomaly_detection [] = ([], [])"
  by (simp add: anomaly_detection_def)

lemma anomaly_detection_nonempty:
  "exps \<noteq> [] \<Longrightarrow> anomaly_detection exps =
     ([(foldl js_add (Fin 0) (map expense.amount exps), Fin (real (length exps)))],
      map (\<lambda>exp. \<lparr>anomaly.date = expense.date exp,
                   anomaly.amount = expense.amount exp,
                   anomaly.description = expense.description exp\<rparr>)
        (filter (\<lambda>exp. js_gt (expense.amount exp)
                   (js_mul (js_div (foldl js_add (Fin 0) (map expense.amount exps))
                              (Fin (real (length exps))))
                      (Fin 2))) exps))"
  by (simp add: anomaly_detection_def Let_def
      del: js_mul.simps js_div.simps js_gt.simps js_add.simps)

lemma anomaly_detection_divisors:
  "d \<in> set (fst (anomaly_detection exps)) \<Longrightarrow> snd d \<noteq> Fin 0"
  by (cases "exps = []") (auto simp add: anomaly_detection_Nil anomaly_detection_nonempty)

lemma generateInsights_eq:
  "generateInsights toStr exps cts mts =
     (fst (category_recommendations toStr cts) @ fst (anomaly_detection exps),
      Inr \<lparr>predictions = \<lparr>nextMonth = projr (predictNextMonth mts)\<rparr>,
           recommendations = projr (snd (category_recommendations toStr cts)),
           anomalies = snd (anomaly_detection exps)\<rparr>)"
proof (cases "cts = []")
  case True
  then show ?thesis
    by (simp add: generateInsights_def predictNextMonth_Inr category_recommendations_Nil
        split: prod.splits)
next
  case False
  then show ?thesis
    by (simp add: generateInsights_def predictNextMonth_Inr category_recommendations_nonempty
        split: prod.splits del: js_mul.simps js_div.simps js_gt.simps js_add.simps)
qed



lemma four_expenses_rows:
  "four_expenses =
     [\<lparr>id = 1, date = ''2024-01-15'', category = ''Food'', amount = Fin 100,
       description = Some ''Lunch'', created_at = ''2024-01-20 00:00:00''\<rparr>,
      \<lparr>id = 2, date = ''2024-01-16'', category = ''Food'', amount = Fin 100,
       description = Some ''Dinner'', created_at = ''2024-01-20 00:00:00''\<rparr>,
      \<lparr>id = 3, date = ''2024-01-17'', category = ''Travel'', amount = Fin 100,
       description = Some ''Taxi'', created_at = ''2024-01-20 00:00:00''\<rparr>,
      \<lparr>id = 4, date = ''2024-01-18'', category = ''Shopping'', amount = Fin 1000,
       description = Some ''Phone'', created_at = ''2024-01-20 00:00:00''\<rparr>]"
  by (simp add: four_expenses_def row_def fl_numeral)

lemma four_expenses_anomalies:
  "anomaly_detection four_expenses =
     ([(Fin 1300, Fin 4)],
      [\<lparr>anomaly.date = ''2024-01-18'', anomaly.amount = Fin 1000,
        anomaly.description = Some ''Phone''\<rparr>])"
  unfolding four_expenses_rows
  by (simp add: anomaly_detection_def fl_numeral)

subsection \<open>Facts about the record store\<close>




lemma set_order_by_desc: "set (order_by_desc f xs) = set xs"
  by (simp add: order_by_desc_def)


lemma map_order_by_desc:
  "map f (order_by_desc f xs) = rev (map f (sort_key f (rev xs)))"
  by (simp add: order_by_desc_def rev_map)



lemma strictly_descending_order_by_desc:
  assumes "distinct (map f xs)"
  shows "sorted_wrt (\<lambda>a b. b < a) (map f (order_by_desc f xs))"
proof -
  have "sorted (map f (sort_key f (rev xs)))"
    by (rule sorted_sort_key)
  moreover have "distinct (map f (sort_key f (rev xs)))"
    using assms by (simp add: distinct_map)
  ultimately have "sorted_wrt (<) (map f (sort_key f (rev xs)))"
    by (simp add: strict_sorted_iff)
  then show ?thesis
    unfolding map_order_by_desc sorted_wrt_rev .
qed









lemma group_by_month_keys:
  "map monthly_total.month (group_by_month fmt agg rows)
     = remdups (map (\<lambda>r. fmt (expense.date r)) rows)"
  by (simp add: group_by_month_def comp_def)

lemma group_by_month_total:
  "t \<in> set (group_by_month fmt agg rows) \<Longrightarrow>
     monthly_total.total t =
       agg (map expense.amount (filter (\<lambda>r. fmt (expense.date r) = monthly_total.month t) rows))"
  by (auto simp add: group_by_month_def)

lemma ordered_months_strict:
  "sorted_wrt (\<lambda>a b. b < a)
     (map monthly_total.month (order_by_desc monthly_total.month (group_by_month fmt agg tbl)))"
  by (rule strictly_descending_order_by_desc) (simp add: group_by_month_keys)

lemma ordered_months_set:
  "set (map monthly_total.month (order_by_desc monthly_total.month (group_by_month fmt agg tbl)))
     = (\<lambda>r. fmt (expense.date r)) ` set tbl"
proof -
  have "set (map monthly_total.month (order_by_desc monthly_total.month (group_by_month fmt agg tbl)))
        = set (map monthly_total.month (group_by_month fmt agg tbl))"
    by (simp add: set_order_by_desc)
  also have "\<dots> = (\<lambda>r. fmt (expense.date r)) ` set tbl"
    unfolding group_by_month_keys by simp
  finally show ?thesis .
qed

lemma dropped_below_kept:
  assumes "sorted_wrt (\<lambda>a b. b < a) ks" and "k \<in> set ks" and "k \<notin> set (take n ks)"
  shows "length (take n ks) = n \<and> (\<forall>k' \<in> set (take n ks). k < k')"
proof -
  have "k \<in> set (drop n ks)"
    using assms(2,3) by (metis Un_iff append_take_drop_id set_append)
  then have "n < length ks"
    by (cases "n < length ks") auto
  moreover have "sorted_wrt (\<lambda>a b. b < a) (take n ks @ drop n ks)"
    using assms(1) by simp
  then have "\<forall>k' \<in> set (take n ks). \<forall>d \<in> set (drop n ks). d < k'"
    unfolding sorted_wrt_append by blast
  ultimately show ?thesis
    using \<open>k \<in> set (drop n ks)\<close> by auto
qed

lemma yearMonth_2024_1: "yearMonth 2024 (Suc 0) = ''2024-01''"
  by (simp add: yearMonth_def padStart2_def show_nat.simps)


lemma sample_expenses_by_month:
  "select_expenses_by_month sampleExpenses 2024 (Suc 0) = rev sampleExpenses"
  by (simp add: select_expenses_by_month_def yearMonth_2024_1 sampleExpenses_def row_def
      like_prefix_def order_by_desc_def less_eq_char_def less_char_def)

lemma eight_months_totals:
  "select_monthly_totals iso_month double_sum eight_months =
     [\<lparr>month = Some ''2024-06'', total = Fin 140\<rparr>,
      \<lparr>month = Some ''2024-05'', total = Fin 70\<rparr>,
      \<lparr>month = Some ''2024-04'', total = Fin 80\<rparr>,
      \<lparr>month = Some ''2024-03'', total = Fin 20\<rparr>,
      \<lparr>month = Some ''2024-02'', total = Fin 60\<rparr>,
      \<lparr>month = Some ''2024-01'', total = Fin 30\<rparr>]"
  by (simp add: select_monthly_totals_def group_by_month_def order_by_desc_def iso_month_def
      eight_months_def row_def double_sum_def fl_numeral less_eq_char_def less_char_def)




subsection \<open>Facts about the routes\<close>

lemma rounded_within_limit:
  assumes "\<not> js_gt spent (Fin 5000)"
  shows "\<not> js_gt (js_div (Math_round (js_mul spent (Fin 100))) (Fin 100)) (Fin 5000)"
proof (cases spent)
  case (Fin s)
  then have s: "s \<le> 5000" using assms by simp
  then have "s * 100 \<le> 500000" by simp
  then have "\<not> js_gt (fl (s * 100)) (Fin 500000)"
    by (rule fl_le_numeral) simp
  then consider "fl (s * 100) = NegInf" | y where "fl (s * 100) = Fin y" and "y \<le> 500000"
    using fl_le_cases by blast
  then show ?thesis
  proof cases
    case 1
    then show ?thesis using Fin by (simp add: js_inf_def)
  next
    case 2
    have "\<lfloor>y + 1 / 2\<rfloor> \<le> 500000" using 2(2) by (simp add: floor_le_iff)
    then have "real_of_int \<lfloor>y + 1 / 2\<rfloor> \<le> 500000" by linarith
    then have "real_of_int \<lfloor>y + 1 / 2\<rfloor> / 100 \<le> 5000" by simp
    then have "\<not> js_gt (fl (real_of_int \<lfloor>y + 1 / 2\<rfloor> / 100)) (Fin 5000)"
      by (rule fl_le_numeral) simp
    then show ?thesis using Fin 2(1) by simp
  qed
next
  case PosInf
  then show ?thesis using assms by simp
next
  case NegInf
  then show ?thesis by (simp add: js_inf_def)
next
  case NaN
  then show ?thesis by simp
qed

lemma rounded_at_limit:
  "js_div (Math_round (js_mul (Fin 5000) (Fin 100))) (Fin 100) = Fin 5000"
  by (simp add: fl_numeral)

lemma report_body_fields:
  "report_body exps cats months =
     \<lparr>expenses = exps, categoryTotals = cats, monthlyTotals = months,
      totalSpending =
        js_div (Math_round (js_mul (foldl js_add (Fin 0) (map expense.amount exps)) (Fin 100)))
          (Fin 100),
      isOverBudget = js_gt (foldl js_add (Fin 0) (map expense.amount exps)) (Fin 5000),
      budgetLimit = Fin 5000\<rparr>"
  by (simp add: report_body_def Let_def foldl_map)

lemma three_reads_failure:
  assumes "isl (fst (getExpensesByMonth ops y m s))
    \<or> isl (fst (getCategoryTotals ops y m (snd (getExpensesByMonth ops y m s))))
    \<or> isl (fst (getMonthlyTotals ops
              (snd (getCategoryTotals ops y m (snd (getExpensesByMonth ops y m s))))))"
  shows "isl (fst (three_reads ops y m s))"
  using assms
  by (auto simp add: three_reads_def split: prod.splits sum.splits)

lemma three_reads_state:
  "snd (three_reads ops y m s) =
           snd (getMonthlyTotals ops
              (snd (getCategoryTotals ops y m (snd (getExpensesByMonth ops y m s)))))"
  by (auto simp add: three_reads_def split: prod.splits sum.splits)

lemma get_report_eq:
  "get_report ops y m s =
     (case fst (three_reads ops y m s) of
        Inl e \<Rightarrow> \<lparr>status = 500, body = Error ''Failed to generate report''\<rparr>
      | Inr (exps, cats, months) \<Rightarrow> \<lparr>status = 200, body = Report (report_body exps cats months)\<rparr>,
      snd (three_reads ops y m s))"
  by (auto simp add: get_report_def split: prod.splits sum.splits)

lemma get_ai_insights_eq:
  "get_ai_insights toStr ops y m s =
     (case fst (three_reads ops y m s) of
        Inl e \<Rightarrow> \<lparr>status = 500, body = Error ''Failed to generate insights''\<rparr>
      | Inr (exps, cats, months) \<Rightarrow>
          \<lparr>status = 200, body = Insights (projr (snd (generateInsights toStr exps cats months)))\<rparr>,
      snd (three_reads ops y m s))"
  by (auto simp add: get_ai_insights_def generateInsights_eq split: prod.splits sum.splits)

lemma sample_amounts:
  "map expense.amount (rev sampleExpenses) = [Fin 300, Fin 600, Fin 2500, Fin 800, Fin 1200]"
  by (simp add: sampleExpenses_def row_def fl_numeral)

lemma exactly_limit_amounts:
  "map expense.amount exactly_limit = [Fin 4000, Fin 1000]"
  by (simp add: exactly_limit_def row_def fl_numeral)

subsection \<open>Prediction\<close>



text \<open>
  Claim C10. \<open>predictNextMonth\<close> depends only on the first two entries: two lists of at
  least two entries that agree at the indices 0 and 1 get the same prediction, whatever the
  older periods are.
\<close>

theorem predictNextMonth_first_two:
  assumes "2 \<le> length xs" and "2 \<le> length ys"
    and "xs ! 0 = ys ! 0" and "xs ! 1 = ys ! 1"
  shows "predictNextMonth xs = predictNextMonth ys"
proof -
  have "\<not> length xs < 2" and "\<not> length ys < 2" and "0 < length xs" and "0 < length ys"
    and "1 < length xs" and "1 < length ys"
    using assms by auto
  then show ?thesis
    using assms by (simp add: predictNextMonth_def js_get_def js_index_def)
qed

theorem predictNextMonth_first_two_witness:
  "predictNextMonth [\<lparr>month = Some ''2024-03'', total = Fin 300\<rparr>,
                     \<lparr>month = Some ''2024-02'', total = Fin 250\<rparr>,
                     \<lparr>month = Some ''2024-01'', total = Fin 9000\<rparr>]
   = predictNextMonth [\<lparr>month = Some ''2024-03'', total = Fin 300\<rparr>,
                       \<lparr>month = Some ''2024-02'', total = Fin 250\<rparr>]
   \<and> predictNextMonth [\<lparr>month = Some ''2024-03'', total = Fin 300\<rparr>,
                       \<lparr>month = Some ''2024-02'', total = Fin 250\<rparr>] = Inr (Fin 350)"
proof -
  let ?xs = "[\<lparr>month = Some ''2024-03'', total = Fin 300\<rparr>,
              \<lparr>month = Some ''2024-02'', total = Fin 250\<rparr>,
              \<lparr>month = Some ''2024-01'', total = Fin 9000\<rparr>]"
  let ?ys = "[\<lparr>month = Some ''2024-03'', total = Fin 300\<rparr>,
              \<lparr>month = Some ''2024-02'', total = Fin 250\<rparr>]"
  have "predictNextMonth ?xs = predictNextMonth ?ys"
    by (rule predictNextMonth_first_two) simp_all
  moreover have "predictNextMonth ?ys = Inr (Fin 350)"
    by (simp add: predictNextMonth_Inr js_sub_def fl_numeral)
  ultimately show ?thesis by simp
qed

subsection \<open>Concentration recommendation\<close>



subsection \<open>Anomaly detection\<close>



subsection \<open>Empty category totals\<close>

text \<open>
  Claim C9. With no category totals the recommendation block evaluates no division and
  returns the empty list; the insight engine returns without an exception, its
  recommendations are empty, and the only divisions it evaluates are those of the anomaly
  block, none of them by zero.
\<close>

theorem empty_category_totals_safe:
  "category_recommendations toStr [] = ([], Inr [])
   \<and> \<not> isl (snd (generateInsights toStr exps [] mts))
   \<and> recommendations (projr (snd (generateInsights toStr exps [] mts))) = []
   \<and> fst (generateInsights toStr exps [] mts) = fst (anomaly_detection exps)
   \<and> (\<forall>d \<in> set (fst (generateInsights toStr exps [] mts)). snd d \<noteq> Fin 0)"
  using anomaly_detection_divisors [of _ exps]
  by (simp add: category_recommendations_Nil generateInsights_eq)

theorem empty_category_totals_safe_witness:
  "generateInsights (\<lambda>x. ''1e+21'') four_expenses []
     [\<lparr>month = Some ''2024-01'', total = Fin 1300\<rparr>] =
     ([(Fin 1300, Fin 4)],
      Inr \<lparr>predictions = \<lparr>nextMonth = Fin 0\<rparr>,
           recommendations = [],
           anomalies = [\<lparr>anomaly.date = ''2024-01-18'', anomaly.amount = Fin 1000,
                         anomaly.description = Some ''Phone''\<rparr>]\<rparr>)"
  using empty_category_totals_safe
          [of "\<lambda>x. ''1e+21''" four_expenses "[\<lparr>month = Some ''2024-01'', total = Fin 1300\<rparr>]"]
  by (simp add: generateInsights_def predictNextMonth_def category_recommendations_def
      four_expenses_anomalies)

subsection \<open>Category totals\<close>




subsection \<open>Monthly totals\<close>

text \<open>
  Claim C6. The monthly totals have at most six entries, in strictly descending order of
  month; each entry is the month of some record, with the engine's sum of the amounts of
  the records of that month; and a record's month is missing from the result only when six
  months are returned and all of them are more recent.
\<close>

theorem monthly_totals_six_most_recent:
  fixes fmt :: "string \<Rightarrow> string option" and agg :: "jsnum list \<Rightarrow> jsnum" and tbl :: table
  defines "months \<equiv> select_monthly_totals fmt agg tbl"
  shows "length months \<le> 6
    \<and> sorted_wrt (\<lambda>a b. b < a) (map monthly_total.month months)
    \<and> (\<forall>t \<in> set months.
          monthly_total.month t \<in> (\<lambda>r. fmt (expense.date r)) ` set tbl
          \<and> monthly_total.total t =
              agg (map expense.amount
                (filter (\<lambda>r. fmt (expense.date r) = monthly_total.month t) tbl)))
    \<and> (\<forall>r \<in> set tbl.
          fmt (expense.date r) \<in> set (map monthly_total.month months)
          \<or> (length months = 6
              \<and> (\<forall>t \<in> set months. fmt (expense.date r) < monthly_total.month t)))"
proof -
  let ?all = "order_by_desc monthly_total.month (group_by_month fmt agg tbl)"
  have months: "months = take 6 ?all"
    by (simp add: months_def select_monthly_totals_def)
  have keys: "map monthly_total.month months = take 6 (map monthly_total.month ?all)"
    by (simp add: months take_map)
  have "length months \<le> 6"
    by (simp add: months)
  moreover have "sorted_wrt (\<lambda>a b. b < a) (map monthly_total.month months)"
    unfolding keys using ordered_months_strict [of fmt agg tbl] by (rule sorted_wrt_take)
  moreover have "\<forall>t \<in> set months.
          monthly_total.month t \<in> (\<lambda>r. fmt (expense.date r)) ` set tbl
          \<and> monthly_total.total t =
              agg (map expense.amount
                (filter (\<lambda>r. fmt (expense.date r) = monthly_total.month t) tbl))"
  proof
    fix t assume "t \<in> set months"
    then have t: "t \<in> set (group_by_month fmt agg tbl)"
      unfolding months using set_order_by_desc by (metis in_set_takeD)
    then have "monthly_total.month t \<in> set (map monthly_total.month (group_by_month fmt agg tbl))"
      by simp
    then have "monthly_total.month t \<in> (\<lambda>r. fmt (expense.date r)) ` set tbl"
      unfolding group_by_month_keys by simp
    then show "monthly_total.month t \<in> (\<lambda>r. fmt (expense.date r)) ` set tbl
          \<and> monthly_total.total t =
              agg (map expense.amount
                (filter (\<lambda>r. fmt (expense.date r) = monthly_total.month t) tbl))"
      using group_by_month_total [OF t] by simp
  qed
  moreover have "\<forall>r \<in> set tbl.
          fmt (expense.date r) \<in> set (map monthly_total.month months)
          \<or> (length months = 6
              \<and> (\<forall>t \<in> set months. fmt (expense.date r) < monthly_total.month t))"
  proof
    fix r assume "r \<in> set tbl"
    then have in_all: "fmt (expense.date r) \<in> set (map monthly_total.month ?all)"
      unfolding ordered_months_set by blast
    show "fmt (expense.date r) \<in> set (map monthly_total.month months)
          \<or> (length months = 6
              \<and> (\<forall>t \<in> set months. fmt (expense.date r) < monthly_total.month t))"
    proof (cases "fmt (expense.date r) \<in> set (map monthly_total.month months)")
      case True
      then show ?thesis by simp
    next
      case False
      then have "fmt (expense.date r) \<notin> set (take 6 (map monthly_total.month ?all))"
        unfolding keys .
      from dropped_below_kept [OF ordered_months_strict in_all this]
      have "length (map monthly_total.month months) = 6"
        and "\<forall>k' \<in> set (map monthly_total.month months). fmt (expense.date r) < k'"
        unfolding keys by simp_all
      then show ?thesis by simp
    qed
  qed
  ultimately show ?thesis by blast
qed

theorem monthly_totals_six_most_recent_witness:
  "select_monthly_totals iso_month double_sum eight_months =
     [\<lparr>month = Some ''2024-06'', total = Fin 140\<rparr>,
      \<lparr>month = Some ''2024-05'', total = Fin 70\<rparr>,
      \<lparr>month = Some ''2024-04'', total = Fin 80\<rparr>,
      \<lparr>month = Some ''2024-03'', total = Fin 20\<rparr>,
      \<lparr>month = Some ''2024-02'', total = Fin 60\<rparr>,
      \<lparr>month = Some ''2024-01'', total = Fin 30\<rparr>]
   \<and> length (select_monthly_totals iso_month double_sum eight_months) \<le> 6
   \<and> length eight_months = 9"
proof -
  have "length (select_monthly_totals iso_month double_sum eight_months) \<le> 6"
    using monthly_totals_six_most_recent [of iso_month double_sum eight_months] by blast
  then show ?thesis
    using eight_months_totals by (simp add: eight_months_def)
qed

subsection \<open>Budget alert\<close>

text \<open>
  Claim C1, as amended. In every report, \<open>isOverBudget\<close> is true exactly when the sum of
  the current month's amounts, as the route adds them and before rounding, exceeds 5000;
  \<open>totalSpending\<close> is that sum rounded to two decimals and \<open>budgetLimit\<close> is 5000. A
  sum of exactly 5000 gives \<open>isOverBudget\<close> false and \<open>totalSpending\<close> 5000, and a
  returned \<open>totalSpending\<close> above 5000 comes with \<open>isOverBudget\<close> true. The route sends
  this report whenever the three reads resolve.
\<close>

theorem over_budget_iff_sum_above_limit:
  fixes exps :: "expense list" and cats months
  defines "spent \<equiv> foldl js_add (Fin 0) (map expense.amount exps)"
    and "rep \<equiv> report_body exps cats months"
  shows "isOverBudget rep = js_gt spent (Fin 5000)
    \<and> totalSpending rep = js_div (Math_round (js_mul spent (Fin 100))) (Fin 100)
    \<and> budgetLimit rep = Fin 5000
    \<and> (spent = Fin 5000 \<longrightarrow> \<not> isOverBudget rep \<and> totalSpending rep = Fin 5000)
    \<and> (js_gt (totalSpending rep) (Fin 5000) \<longrightarrow> isOverBudget rep)
    \<and> (three_reads ops y m s = (Inr (exps, cats, months), s') \<longrightarrow>
         get_report ops y m s = (\<lparr>status = 200, body = Report rep\<rparr>, s'))"
proof -
  have o: "isOverBudget rep = js_gt spent (Fin 5000)"
    and t: "totalSpending rep = js_div (Math_round (js_mul spent (Fin 100))) (Fin 100)"
    and b: "budgetLimit rep = Fin 5000"
    by (simp_all only: rep_def spent_def report_body_fields report.simps)
  have l: "spent = Fin 5000 \<longrightarrow> \<not> isOverBudget rep \<and> totalSpending rep = Fin 5000"
    using rounded_at_limit by (simp only: o t) simp
  have a: "js_gt (totalSpending rep) (Fin 5000) \<longrightarrow> isOverBudget rep"
    unfolding o t using rounded_within_limit [of spent] by blast
  have r: "three_reads ops y m s = (Inr (exps, cats, months), s') \<longrightarrow>
         get_report ops y m s = (\<lparr>status = 200, body = Report rep\<rparr>, s')"
    by (simp add: get_report_eq rep_def)
  show ?thesis
    using o t b l a r by blast
qed

theorem over_budget_iff_sum_above_limit_witness:
  "\<not> isOverBudget (report_body exactly_limit [] [])
   \<and> totalSpending (report_body exactly_limit [] []) = Fin 5000
   \<and> isOverBudget (report_body (rev sampleExpenses) [] [])
   \<and> totalSpending (report_body (rev sampleExpenses) [] []) = Fin 5400
   \<and> \<not> isOverBudget (report_body [row 1 ''2024-01-15'' ''Rent'' 3899.3 ''Room'',
                                   row 2 ''2024-01-16'' ''Food'' 1100.7 ''Board''] [] [])
   \<and> totalSpending (report_body [row 1 ''2024-01-15'' ''Food'' 0.015 ''Sweet''] [] []) = fl 0.02
   \<and> fst (get_report (dbManager iso_month double_sum) 2024 1 (Some sampleExpenses)) =
       \<lparr>status = 200,
        body = Report (report_body (rev sampleExpenses)
                 (select_category_totals double_sum sampleExpenses 2024 1)
                 (select_monthly_totals iso_month double_sum sampleExpenses))\<rparr>"
proof -
  have reads: "three_reads (dbManager iso_month double_sum) 2024 1 (Some sampleExpenses) =
          (Inr (rev sampleExpenses, select_category_totals double_sum sampleExpenses 2024 1,
                select_monthly_totals iso_month double_sum sampleExpenses), Some sampleExpenses)"
    unfolding One_nat_def sample_expenses_by_month [symmetric]
    by (simp add: three_reads_def dbManager_def)
  have limit: "foldl js_add (Fin 0) (map expense.amount exactly_limit) = Fin 5000"
    unfolding exactly_limit_amounts by (simp add: fl_numeral)
  have sample: "foldl js_add (Fin 0) (map expense.amount (rev sampleExpenses)) = Fin 5400"
    unfolding sample_amounts by (simp add: fl_numeral)
  have near: "foldl js_add (Fin 0)
                (map expense.amount [row 1 ''2024-01-15'' ''Rent'' 3899.3 ''Room'',
                                     row 2 ''2024-01-16'' ''Food'' 1100.7 ''Board'']) = Fin 5000"
    by (simp add: row_def double_eval)
  have small: "js_div (Math_round (js_mul
                 (foldl js_add (Fin 0)
                    (map expense.amount [row 1 ''2024-01-15'' ''Food'' 0.015 ''Sweet'']))
                 (Fin 100))) (Fin 100) = fl 0.02"
    by (simp add: row_def double_eval)
  have "\<not> isOverBudget (report_body exactly_limit [] [])
        \<and> totalSpending (report_body exactly_limit [] []) = Fin 5000"
    using over_budget_iff_sum_above_limit
            [of exactly_limit "[]" "[]" "dbManager iso_month double_sum" 2024 1 None None] limit
    by blast
  moreover have "isOverBudget (report_body (rev sampleExpenses) [] [])
        \<and> totalSpending (report_body (rev sampleExpenses) [] []) = Fin 5400"
    using over_budget_iff_sum_above_limit
            [of "rev sampleExpenses" "[]" "[]" "dbManager iso_month double_sum" 2024 1 None None]
    unfolding sample by (simp add: fl_numeral)
  moreover have "\<not> isOverBudget (report_body [row 1 ''2024-01-15'' ''Rent'' 3899.3 ''Room'',
                                   row 2 ''2024-01-16'' ''Food'' 1100.7 ''Board''] [] [])"
    using over_budget_iff_sum_above_limit
            [of "[row 1 ''2024-01-15'' ''Rent'' 3899.3 ''Room'',
                  row 2 ''2024-01-16'' ''Food'' 1100.7 ''Board'']" "[]" "[]"
                "dbManager iso_month double_sum" 2024 1 None None] near
    by blast
  moreover have "totalSpending (report_body [row 1 ''2024-01-15'' ''Food'' 0.015 ''Sweet''] [] [])
                 = fl 0.02"
    using over_budget_iff_sum_above_limit
            [of "[row 1 ''2024-01-15'' ''Food'' 0.015 ''Sweet'']" "[]" "[]"
                "dbManager iso_month double_sum" 2024 1 None None]
    unfolding small by blast
  moreover have "get_report (dbManager iso_month double_sum) 2024 1 (Some sampleExpenses) =
       (\<lparr>status = 200,
         body = Report (report_body (rev sampleExpenses)
                 (select_category_totals double_sum sampleExpenses 2024 1)
                 (select_monthly_totals iso_month double_sum sampleExpenses))\<rparr>, Some sampleExpenses)"
    using over_budget_iff_sum_above_limit [of "rev sampleExpenses"
        "select_category_totals double_sum sampleExpenses 2024 1"
        "select_monthly_totals iso_month double_sum sampleExpenses"
        "dbManager iso_month double_sum" 2024 1 "Some sampleExpenses" "Some sampleExpenses"] reads
    by blast
  ultimately show ?thesis
    by (metis fst_conv)
qed

text \<open>
  The claim as first stated compares the returned, rounded \<open>totalSpending\<close> with the
  limit. With one expense of 5000.004 the route reports \<open>isOverBudget\<close> true next to a
  \<open>totalSpending\<close> of 5000.
\<close>

theorem over_budget_rounded_total_counterexample:
  "get_report (dbManager iso_month double_sum) 2024 1 (Some rent_only) =
     (\<lparr>status = 200,
       body = Report
         \<lparr>expenses = rent_only,
          categoryTotals =
            [\<lparr>category_total.category = ''Rent'', category_total.total = fl 5000.004\<rparr>],
          monthlyTotals = [\<lparr>month = Some ''2024-01'', total = fl 5000.004\<rparr>],
          totalSpending = Fin 5000,
          isOverBudget = True,
          budgetLimit = Fin 5000\<rparr>\<rparr>,
      Some rent_only)
   \<and> isOverBudget (report_body rent_only [] [])
   \<and> \<not> js_gt (totalSpending (report_body rent_only [] [])) (Fin 5000)"
proof -
  have one: "js_add (Fin 0) (fl 5000.004) = fl 5000.004"
    by (simp add: double_eval)
  have e: "select_expenses_by_month rent_only 2024 (Suc 0) = rent_only"
    by (simp add: select_expenses_by_month_def yearMonth_2024_1 rent_only_def row_def
        like_prefix_def order_by_desc_def)
  have c: "select_category_totals double_sum rent_only 2024 (Suc 0) =
             [\<lparr>category_total.category = ''Rent'', category_total.total = fl 5000.004\<rparr>]"
    by (simp add: select_category_totals_def yearMonth_2024_1 rent_only_def row_def
        like_prefix_def group_by_category_def order_by_desc_def double_sum_def one [simplified])
  have m: "select_monthly_totals iso_month double_sum rent_only =
             [\<lparr>month = Some ''2024-01'', total = fl 5000.004\<rparr>]"
    by (simp add: select_monthly_totals_def group_by_month_def order_by_desc_def iso_month_def
        rent_only_def row_def double_sum_def one [simplified])
  have o: "js_gt (fl 5000.004) (Fin 5000)"
    by (simp add: double_eval)
  have t: "js_div (Math_round (js_mul (fl 5000.004) (Fin 100))) (Fin 100) = Fin 5000"
    by (simp add: double_eval)
  have r: "report_body rent_only cats months =
             \<lparr>expenses = rent_only, categoryTotals = cats, monthlyTotals = months,
              totalSpending = Fin 5000, isOverBudget = True, budgetLimit = Fin 5000\<rparr>"
    for cats months
    unfolding report_body_fields
    by (simp add: rent_only_def row_def one [simplified] o [simplified] t [simplified])
  have "three_reads (dbManager iso_month double_sum) 2024 1 (Some rent_only) =
          (Inr (rent_only,
                [\<lparr>category_total.category = ''Rent'', category_total.total = fl 5000.004\<rparr>],
                [\<lparr>month = Some ''2024-01'', total = fl 5000.004\<rparr>]),
           Some rent_only)"
    by (simp add: three_reads_def dbManager_def e c m)
  then show ?thesis
    by (simp add: get_report_eq r)
qed

subsection \<open>Store failures\<close>

text \<open>
  Claim C7. If any of the three reads rejects, the \<open>/report\<close> route answers with status
  500 and the message \<open>Failed to generate report\<close>, and the \<open>/ai-insights\<close> route with
  status 500 and \<open>Failed to generate insights\<close>: no report and no insights are sent. The
  store is left in the state after one call of each read, so no read is issued again.
\<close>

theorem read_failure_aborts:
  fixes ops :: "'s dbOperations" and y m :: nat and s :: 's and toStr :: "real \<Rightarrow> string"
  defines "r1 \<equiv> getExpensesByMonth ops y m s"
  defines "r2 \<equiv> getCategoryTotals ops y m (snd r1)"
  defines "r3 \<equiv> getMonthlyTotals ops (snd r2)"
  assumes "isl (fst r1) \<or> isl (fst r2) \<or> isl (fst r3)"
  shows "get_report ops y m s =
           (\<lparr>status = 500, body = Error ''Failed to generate report''\<rparr>, snd r3)
    \<and> get_ai_insights toStr ops y m s =
           (\<lparr>status = 500, body = Error ''Failed to generate insights''\<rparr>, snd r3)"
proof -
  have "isl (fst (three_reads ops y m s))"
    using assms(4) unfolding r1_def r2_def r3_def by (rule three_reads_failure)
  then obtain e where "fst (three_reads ops y m s) = Inl e"
    by (cases "fst (three_reads ops y m s)") auto
  moreover have "snd (three_reads ops y m s) = snd r3"
    unfolding r1_def r2_def r3_def by (rule three_reads_state)
  ultimately show ?thesis
    by (simp add: get_report_eq get_ai_insights_eq)
qed

theorem read_failure_aborts_witness:
  "get_report busy_store 2024 1 0 =
     (\<lparr>status = 500, body = Error ''Failed to generate report''\<rparr>, 3)
   \<and> get_ai_insights (\<lambda>x. ''1e+21'') busy_store 2024 1 0 =
     (\<lparr>status = 500, body = Error ''Failed to generate insights''\<rparr>, 3)
   \<and> get_report (dbManager iso_month double_sum) 2024 1 None =
     (\<lparr>status = 500, body = Error ''Failed to generate report''\<rparr>, None)"
  using read_failure_aborts [of busy_store 2024 1 0 "\<lambda>x. ''1e+21''"]
    read_failure_aborts [of "dbManager iso_month double_sum" 2024 1 None "\<lambda>x. ''1e+21''"]
  by (simp add: busy_store_def dbManager_def)

subsection \<open>Repeated reports\<close>

text \<open>
  Claim C8. For a fixed year and month the response of each route is determined by the
  results of the three reads: two runs whose reads give the same results send the same
  response, on any two stores. With a store whose reads leave it unchanged, a run leaves
  the store as it was and a second run sends the response of the first.
\<close>

theorem responses_determined_by_reads:
  fixes ops :: "'s dbOperations" and ops' :: "'t dbOperations"
  shows "(fst (three_reads ops y m s) = fst (three_reads ops' y m s') \<longrightarrow>
            fst (get_report ops y m s) = fst (get_report ops' y m s')
          \<and> fst (get_ai_insights toStr ops y m s) = fst (get_ai_insights toStr ops' y m s'))
    \<and> ((\<forall>y m s. snd (getExpensesByMonth ops y m s) = s)
        \<and> (\<forall>y m s. snd (getCategoryTotals ops y m s) = s)
        \<and> (\<forall>s. snd (getMonthlyTotals ops s) = s) \<longrightarrow>
          snd (get_report ops y m s) = s
        \<and> snd (get_ai_insights toStr ops y m s) = s
        \<and> fst (get_report ops y m (snd (get_report ops y m s))) = fst (get_report ops y m s)
        \<and> fst (get_ai_insights toStr ops y m (snd (get_ai_insights toStr ops y m s)))
            = fst (get_ai_insights toStr ops y m s))"
proof (intro conjI impI)
  assume "fst (three_reads ops y m s) = fst (three_reads ops' y m s')"
  then show "fst (get_report ops y m s) = fst (get_report ops' y m s')"
    and "fst (get_ai_insights toStr ops y m s) = fst (get_ai_insights toStr ops' y m s')"
    by (simp_all add: get_report_eq get_ai_insights_eq)
next
  assume ro: "(\<forall>y m s. snd (getExpensesByMonth ops y m s) = s)
        \<and> (\<forall>y m s. snd (getCategoryTotals ops y m s) = s)
        \<and> (\<forall>s. snd (getMonthlyTotals ops s) = s)"
  then have st: "snd (three_reads ops y m s) = s"
    by (simp add: three_reads_state)
  show "snd (get_report ops y m s) = s"
    by (simp add: get_report_eq st)
  show "snd (get_ai_insights toStr ops y m s) = s"
    by (simp add: get_ai_insights_eq st)
  show "fst (get_report ops y m (snd (get_report ops y m s))) = fst (get_report ops y m s)"
    by (simp add: get_report_eq st)
  show "fst (get_ai_insights toStr ops y m (snd (get_ai_insights toStr ops y m s)))
            = fst (get_ai_insights toStr ops y m s)"
    by (simp add: get_ai_insights_eq st)
qed

theorem responses_determined_by_reads_witness:
  "fst (get_report (dbManager iso_month double_sum) 2024 1
          (snd (get_report (dbManager iso_month double_sum) 2024 1 (Some sampleExpenses))))
     = fst (get_report (dbManager iso_month double_sum) 2024 1 (Some sampleExpenses))
   \<and> fst (get_ai_insights (\<lambda>x. ''1e+21'') (dbManager iso_month double_sum) 2024 1
          (snd (get_ai_insights (\<lambda>x. ''1e+21'') (dbManager iso_month double_sum) 2024 1
                  (Some sampleExpenses))))
     = fst (get_ai_insights (\<lambda>x. ''1e+21'') (dbManager iso_month double_sum) 2024 1
              (Some sampleExpenses))
   \<and> snd (get_report (dbManager iso_month double_sum) 2024 1 (Some sampleExpenses))
     = Some sampleExpenses
   \<and> fst (get_report (dbManager iso_month double_sum) 2024 1 (Some (rev sampleExpenses)))
     = fst (get_report (dbManager iso_month double_sum) 2024 1 (Some sampleExpenses))"
proof -
  have ro: "(\<forall>y m s. snd (getExpensesByMonth (dbManager iso_month double_sum) y m s) = s)
        \<and> (\<forall>y m s. snd (getCategoryTotals (dbManager iso_month double_sum) y m s) = s)
        \<and> (\<forall>s. snd (getMonthlyTotals (dbManager iso_month double_sum) s) = s)"
    by (simp add: dbManager_def)
  have same: "fst (three_reads (dbManager iso_month double_sum) 2024 1 (Some (rev sampleExpenses)))
        = fst (three_reads (dbManager iso_month double_sum) 2024 1 (Some sampleExpenses))"
    by (simp add: three_reads_def dbManager_def select_expenses_by_month_def
        select_category_totals_def select_monthly_totals_def yearMonth_2024_1
        group_by_category_def group_by_month_def order_by_desc_def like_prefix_def
        iso_month_def sampleExpenses_def row_def double_sum_def fl_numeral
        less_eq_prod_def less_eq_char_def less_char_def)
  show ?thesis
    using responses_determined_by_reads
            [of "dbManager iso_month double_sum" 2024 1 "Some sampleExpenses"
                "dbManager iso_month double_sum" "Some sampleExpenses" "\<lambda>x. ''1e+21''"] ro
      responses_determined_by_reads
            [of "dbManager iso_month double_sum" 2024 1 "Some (rev sampleExpenses)"
                "dbManager iso_month double_sum" "Some sampleExpenses" "\<lambda>x. ''1e+21''"] same
    by simp
qed

end
